theory Spec2Isabelle
  imports Main "HOL-Library.Multiset"
begin

section \<open>Python values used by graph.py\<close>

text \<open>
  The exceptions the program can raise: a failed \<^verbatim>\<open>assert\<close> and a list index out of
  range. A fallible function returns \<open>error + 'a\<close>, with \<open>Inl\<close> for the exception.
\<close>

datatype error = AssertionError | IndexError

text \<open>
  Vertex ids, vertex counts and edge counts are Python integers, hence \<open>int\<close>.
  \<^verbatim>\<open>range(n)\<close> is \<open>[0..n - 1]\<close>, which is empty for \<open>n \<le> 0\<close> as in Python.
\<close>

type_synonym vertex = int
type_synonym edge = "vertex \<times> vertex"

definition range_py :: "int \<Rightarrow> int list" where
  "range_py n = [0..n - 1]"

text \<open>
  Indexing a list of length \<open>len\<close> with a Python integer: a negative index counts from
  the end, and anything outside \<open>[-len, len)\<close> raises IndexError (\<open>None\<close> here).
\<close>

definition py_index :: "nat \<Rightarrow> int \<Rightarrow> nat option" where
  "py_index len i =
     (if 0 \<le> i \<and> i < int len then Some (nat i)
      else if - int len \<le> i \<and> i < 0 then Some (nat (int len + i))
      else None)"

text \<open>
  A Python \<^verbatim>\<open>set\<close> is kept as the list of its elements, without duplicates, in the
  order they were first added. Python does not specify the order in which a set is
  iterated, so \<^verbatim>\<open>list(s)\<close> takes the order from an oracle: any function on lists.
  The answer of the oracle is used when it is a rearrangement of the elements and
  ignored otherwise, so that every oracle stands for an iteration order, and every
  iteration order is the answer of some oracle.
\<close>

type_synonym 'a pyset = "'a list"

definition set_add :: "'a \<Rightarrow> 'a pyset \<Rightarrow> 'a pyset" where
  "set_add x s = (if x \<in> set s then s else s @ [x])"

definition list_of :: "('a list \<Rightarrow> 'a list) \<Rightarrow> 'a pyset \<Rightarrow> 'a list" where
  "list_of ord s = (if mset (ord s) = mset s then ord s else s)"

text \<open>
  The process-wide random generator is an infinite sequence of draws, \<open>g k\<close> being the
  \<open>k\<close>-th number still to come. \<^verbatim>\<open>random.randrange(a, b)\<close> consumes one draw and
  maps it into \<open>[a, b)\<close>; every element of the range is the image of some draw. The
  program calls it with \<open>a < b\<close> only (Python raises ValueError on an empty range).
\<close>

type_synonym rng = "nat \<Rightarrow> nat"

definition randrange :: "nat \<Rightarrow> nat \<Rightarrow> rng \<Rightarrow> nat \<times> rng" where
  "randrange a b g = (a + g 0 mod (b - a), \<lambda>k. g (Suc k))"

text \<open>
  \<^verbatim>\<open>l[i], l[j] = l[j], l[i]\<close>: both reads happen before the two writes.
\<close>

definition swap :: "nat \<Rightarrow> nat \<Rightarrow> 'a list \<Rightarrow> 'a list" where
  "swap i j l = l[i := l ! j, j := l ! i]"

text \<open>
  \<^verbatim>\<open>random.shuffle(x)\<close> of the standard library:
  \<^verbatim>\<open>for i in reversed(range(1, len(x))): j = randbelow(i + 1); x[i], x[j] = x[j], x[i]\<close>
\<close>

definition shuffle :: "'a list \<Rightarrow> rng \<Rightarrow> 'a list \<times> rng" where
  "shuffle x g =
     fold (\<lambda>i (y, h). case randrange 0 (i + 1) h of (j, h') \<Rightarrow> (swap i j y, h'))
       (rev [1..<length x]) (x, g)"

section \<open>Edge-list graphs\<close>

record graphEL =
  nvertices :: int
  directed :: bool
  edges :: "edge list"

text \<open>
  The loop of the undirected case of \<^verbatim>\<open>GraphEL.__init__\<close>:
  \<^verbatim>\<open>for v1, v2 in edges: self.edges.add((v1, v2)); self.edges.add((v2, v1))\<close>
\<close>

fun add_both :: "edge list \<Rightarrow> edge pyset \<Rightarrow> edge pyset" where
  "add_both [] s = s"
| "add_both ((v1, v2) # es) s = add_both es (set_add (v2, v1) (set_add (v1, v2) s))"

text \<open>
  \<^verbatim>\<open>GraphEL.__init__\<close>. A directed graph stores the edges it is given. An undirected
  one adds each edge and its reverse to a set and stores the list of that set.
\<close>

definition GraphEL_init ::
    "(edge list \<Rightarrow> edge list) \<Rightarrow> int \<Rightarrow> edge list \<Rightarrow> bool \<Rightarrow> graphEL" where
  "GraphEL_init ordE n es d =
     (if d then \<lparr>nvertices = n, directed = d, edges = es\<rparr>
      else \<lparr>nvertices = n, directed = d, edges = list_of ordE (add_both es [])\<rparr>)"

text \<open>
  The constraint of the data model on a graph's edges: both endpoints of every edge lie
  in \<open>[0, nvertices)\<close>. No function of the program checks it.
\<close>

definition edges_in_range :: "graphEL \<Rightarrow> bool" where
  "edges_in_range g =
     list_all (\<lambda>(v1, v2). 0 \<le> v1 \<and> v1 < nvertices g \<and> 0 \<le> v2 \<and> v2 < nvertices g)
       (edges g)"

text \<open>\<^verbatim>\<open>GraphEL.undirected\<close>: asserts that the graph is directed.\<close>

definition undirected :: "(edge list \<Rightarrow> edge list) \<Rightarrow> graphEL \<Rightarrow> error + graphEL" where
  "undirected ordE self =
     (if directed self then Inr (GraphEL_init ordE (nvertices self) (edges self) False)
      else Inl AssertionError)"

section \<open>Adjacency-list graphs\<close>

record graphAL =
  nverticesAL :: int
  directedAL :: bool
  neighbors :: "vertex list list"

text \<open>
  The directed loop of \<^verbatim>\<open>GraphAL.__init__\<close>:
  \<^verbatim>\<open>for v1, v2 in edges: self.neighbors[v1].append(v2)\<close>
\<close>

fun append_neighbors :: "edge list \<Rightarrow> vertex list list \<Rightarrow> error + vertex list list" where
  "append_neighbors [] nb = Inr nb"
| "append_neighbors ((v1, v2) # es) nb =
     (case py_index (length nb) v1 of
        None \<Rightarrow> Inl IndexError
      | Some k \<Rightarrow> append_neighbors es (nb[k := nb ! k @ [v2]]))"

text \<open>
  The undirected loop:
  \<^verbatim>\<open>for v1, v2 in edges: neighbors[v1].add(v2); neighbors[v2].add(v1)\<close>
\<close>

fun add_neighbors :: "edge list \<Rightarrow> vertex pyset list \<Rightarrow> error + vertex pyset list" where
  "add_neighbors [] nb = Inr nb"
| "add_neighbors ((v1, v2) # es) nb =
     (case py_index (length nb) v1 of
        None \<Rightarrow> Inl IndexError
      | Some k1 \<Rightarrow>
          (case py_index (length nb) v2 of
             None \<Rightarrow> Inl IndexError
           | Some k2 \<Rightarrow>
               add_neighbors es
                 ((nb[k1 := set_add v2 (nb ! k1)])
                    [k2 := set_add v1 ((nb[k1 := set_add v2 (nb ! k1)]) ! k2)])))"

text \<open>
  \<^verbatim>\<open>GraphAL.__init__\<close>. \<^verbatim>\<open>[[] for _ in range(nvertices)]\<close> has \<open>nat n\<close> entries. In the
  undirected case the last loop reads \<^verbatim>\<open>neighbors[v]\<close> for \<open>v\<close> in \<^verbatim>\<open>range(nvertices)\<close>,
  which is in range as the list has \<open>nat n\<close> entries.
\<close>

definition GraphAL_init ::
    "(vertex list \<Rightarrow> vertex list) \<Rightarrow> int \<Rightarrow> edge list \<Rightarrow> bool \<Rightarrow> error + graphAL" where
  "GraphAL_init ordV n es d =
     (if d then
        (case append_neighbors es (replicate (nat n) []) of
           Inl e \<Rightarrow> Inl e
         | Inr nb \<Rightarrow> Inr \<lparr>nverticesAL = n, directedAL = d, neighbors = nb\<rparr>)
      else
        (case add_neighbors es (replicate (nat n) []) of
           Inl e \<Rightarrow> Inl e
         | Inr nb \<Rightarrow>
             Inr \<lparr>nverticesAL = n, directedAL = d,
                  neighbors = map (\<lambda>v. list_of ordV (nb ! nat v)) (range_py n)\<rparr>))"

text \<open>\<^verbatim>\<open>GraphEL.toGraphAL\<close>\<close>

definition toGraphAL :: "(vertex list \<Rightarrow> vertex list) \<Rightarrow> graphEL \<Rightarrow> error + graphAL" where
  "toGraphAL ordV self = GraphAL_init ordV (nvertices self) (edges self) (directed self)"

text \<open>
  The loop of \<^verbatim>\<open>GraphAL.toGraphEL\<close> over \<^verbatim>\<open>range(self.nvertices)\<close>, reading
  \<^verbatim>\<open>self.neighbors[v1]\<close> and appending \<open>(v1, v2)\<close> for each neighbour in stored order.
\<close>

fun collect_edges :: "vertex list list \<Rightarrow> vertex list \<Rightarrow> edge list \<Rightarrow> error + edge list" where
  "collect_edges nb [] acc = Inr acc"
| "collect_edges nb (v1 # vs) acc =
     (case py_index (length nb) v1 of
        None \<Rightarrow> Inl IndexError
      | Some k \<Rightarrow> collect_edges nb vs (acc @ map (Pair v1) (nb ! k)))"

definition toGraphEL :: "(edge list \<Rightarrow> edge list) \<Rightarrow> graphAL \<Rightarrow> error + graphEL" where
  "toGraphEL ordE self =
     (case collect_edges (neighbors self) (range_py (nverticesAL self)) [] of
        Inl e \<Rightarrow> Inl e
      | Inr es \<Rightarrow> Inr (GraphEL_init ordE (nverticesAL self) es (directedAL self)))"

section \<open>Equality\<close>

text \<open>The argument of \<^verbatim>\<open>__eq__\<close> is a graph of either representation.\<close>

datatype graph = EL graphEL | AL graphAL

text \<open>\<^verbatim>\<open>GraphEL.__eq__\<close>\<close>

definition GraphEL_eq :: "(edge list \<Rightarrow> edge list) \<Rightarrow> graphEL \<Rightarrow> graph \<Rightarrow> error + bool" where
  "GraphEL_eq ordE self g =
     (case (case g of AL a \<Rightarrow> toGraphEL ordE a | EL e \<Rightarrow> Inr e) of
        Inl e \<Rightarrow> Inl e
      | Inr g' \<Rightarrow>
          Inr (if directed self \<noteq> directed g' then False
               else if nvertices self \<noteq> nvertices g' then False
               else set (edges self) = set (edges g')))"

text \<open>
  \<^verbatim>\<open>GraphAL.__eq__\<close>: the body is the expression statement
  \<^verbatim>\<open>self.toGraphEL() == g\<close>, with no \<^verbatim>\<open>return\<close>; the method returns Python's
  \<^verbatim>\<open>None\<close>. The result is \<open>Some b\<close> for a boolean and \<open>None\<close> for \<^verbatim>\<open>None\<close>.
\<close>

definition GraphAL_eq ::
    "(edge list \<Rightarrow> edge list) \<Rightarrow> graphAL \<Rightarrow> graph \<Rightarrow> error + bool option" where
  "GraphAL_eq ordE self g =
     (case toGraphEL ordE self of
        Inl e \<Rightarrow> Inl e
      | Inr s \<Rightarrow> (case GraphEL_eq ordE s g of Inl e \<Rightarrow> Inl e | Inr b \<Rightarrow> Inr None))"

section \<open>The random graph generator\<close>

text \<open>
  \<^verbatim>\<open>cycle_shuffle\<close>: \<^verbatim>\<open>for i in range(n-1): j = random.randrange(i+1, n); swap\<close>.
  For \<open>n = 0\<close> the range is empty, as is \<open>[0..<0 - 1]\<close> over \<open>nat\<close>.
\<close>

definition cycle_shuffle :: "'a list \<Rightarrow> rng \<Rightarrow> 'a list \<times> rng" where
  "cycle_shuffle l g =
     (let n = length l in
      fold (\<lambda>i (y, h). case randrange (i + 1) n h of (j, h') \<Rightarrow> (swap i j y, h'))
        [0..<n - 1] (l, g))"

text \<open>
  The loop over the shuffled edges: an edge not yet in the set is added and counted,
  and the loop stops once the count reaches zero.
\<close>

fun add_extra :: "edge list \<Rightarrow> edge pyset \<Rightarrow> int \<Rightarrow> edge pyset" where
  "add_extra [] s nedges = s"
| "add_extra (e # es) s nedges =
     (if e \<notin> set s then
        (if nedges - 1 \<le> 0 then set_add e s else add_extra es (set_add e s) (nedges - 1))
      else add_extra es s nedges)"

definition all_edges_of :: "int \<Rightarrow> edge list" where
  "all_edges_of n = [(v1, v2). v1 \<leftarrow> range_py n, v2 \<leftarrow> range_py n, v1 \<noteq> v2]"

definition path_edges :: "vertex list \<Rightarrow> edge pyset" where
  "path_edges line =
     fold (\<lambda>i s. set_add (line ! i, line ! (i + 1)) s) [0..<length line - 1] []"

definition randgraph ::
    "(edge list \<Rightarrow> edge list) \<Rightarrow> rng \<Rightarrow> int \<Rightarrow> int \<Rightarrow> error + graphEL" where
  "randgraph ordE g n nedges =
     (if \<not> nedges \<le> n * (n - 1) - (n - 1) then Inl AssertionError
      else
        (case cycle_shuffle (range_py n) g of
           (line, g1) \<Rightarrow>
             if int (length (all_edges_of n)) \<noteq> n * (n - 1) then Inl AssertionError
             else
               (case shuffle (all_edges_of n) g1 of
                  (all_edges, g2) \<Rightarrow>
                    Inr (GraphEL_init ordE n
                          (list_of ordE
                             (if nedges > 0 then add_extra all_edges (path_edges line) nedges
                              else path_edges line))
                          True))))"

text \<open>
  Names for the intermediate values of \<open>randgraph\<close>: the shuffled \<^verbatim>\<open>line\<close> of step 1,
  the shuffled \<^verbatim>\<open>all_edges\<close>, drawn after the line from the same generator, and the set
  \<^verbatim>\<open>edges\<close> when the loops are over.
\<close>

definition line_of :: "rng \<Rightarrow> int \<Rightarrow> vertex list" where
  "line_of g n = fst (cycle_shuffle (range_py n) g)"

definition shuffled_edges :: "rng \<Rightarrow> int \<Rightarrow> edge list" where
  "shuffled_edges g n = fst (shuffle (all_edges_of n) (snd (cycle_shuffle (range_py n) g)))"

definition edge_set :: "rng \<Rightarrow> int \<Rightarrow> int \<Rightarrow> edge pyset" where
  "edge_set g n nedges =
     (if nedges > 0 then add_extra (shuffled_edges g n) (path_edges (line_of g n)) nedges
      else path_edges (line_of g n))"









section \<open>Facts about sets and iteration orders\<close>

lemma set_set_add: "set (set_add x s) = insert x (set s)"
  by (auto simp: set_add_def)

lemma distinct_set_add: "distinct s \<Longrightarrow> distinct (set_add x s)"
  by (simp add: set_add_def)

lemma mset_list_of: "mset (list_of ord s) = mset s"
  by (simp add: list_of_def)

lemma set_list_of: "set (list_of ord s) = set s"
  using mset_list_of [of ord s] by (rule mset_eq_setD)

lemma distinct_list_of: "distinct (list_of ord s) = distinct s"
  using mset_list_of [of ord s] by (rule mset_eq_imp_distinct_iff)

lemma length_list_of: "length (list_of ord s) = length s"
  using mset_list_of [of ord s] by (rule mset_eq_length)

section \<open>Construction of edge-list graphs\<close>

lemma set_add_both: "set (add_both es s) = set s \<union> set es \<union> (set es)\<inverse>"
  by (induction es s rule: add_both.induct) (auto simp: set_set_add)

lemma distinct_add_both: "distinct s \<Longrightarrow> distinct (add_both es s)"
  by (induction es s rule: add_both.induct) (auto simp: distinct_set_add)

lemma edges_undirected_init:
  "edges (GraphEL_init ordE n es False) = list_of ordE (add_both es [])"
  by (simp add: GraphEL_init_def)

lemma set_edges_undirected_init:
  "set (edges (GraphEL_init ordE n es False)) = set es \<union> (set es)\<inverse>"
  by (simp add: edges_undirected_init set_list_of set_add_both)

text \<open>
  C4. A graph constructed with \<open>directed = False\<close>, and so the result of
  \<open>undirected\<close>, holds the reverse of each of its edges.
\<close>

theorem undirected_edges_symmetric:
  "((v1, v2) \<in> set (edges (GraphEL_init ordE n es False))
      \<longrightarrow> (v2, v1) \<in> set (edges (GraphEL_init ordE n es False)))
   \<and> (undirected ordE g = Inr u \<and> (v1, v2) \<in> set (edges u) \<longrightarrow> (v2, v1) \<in> set (edges u))"
  by (auto simp: set_edges_undirected_init undirected_def split: if_splits)

theorem undirected_edges_symmetric_witness:
  "(0, 1) \<in> set (edges (GraphEL_init rev 2 [(0, 1)] False))
   \<and> (1, 0) \<in> set (edges (GraphEL_init rev 2 [(0, 1)] False))
   \<and> undirected rev \<lparr>nvertices = 2, directed = True, edges = [(0, 1)]\<rparr>
       = Inr \<lparr>nvertices = 2, directed = False, edges = [(1, 0), (0, 1)]\<rparr>
   \<and> (0, 1) \<in> set (edges \<lparr>nvertices = 2, directed = False, edges = [(1, 0), (0, 1)]\<rparr>)
   \<and> (1, 0) \<in> set (edges \<lparr>nvertices = 2, directed = False, edges = [(1, 0), (0, 1)]\<rparr>)"
  using undirected_edges_symmetric [of 0 1 rev 2 "[(0, 1)]"
      "\<lparr>nvertices = 2, directed = True, edges = [(0, 1)]\<rparr>"
      "\<lparr>nvertices = 2, directed = False, edges = [(1, 0), (0, 1)]\<rparr>"]
  by (simp add: undirected_def GraphEL_init_def list_of_def set_add_def)

text \<open>
  C10. The edge list of a graph constructed with \<open>directed = False\<close> has no
  duplicates, whatever the edges given, repeated pairs included.
\<close>

theorem undirected_edges_distinct: "distinct (edges (GraphEL_init ordE n es False))"
  by (simp add: edges_undirected_init distinct_list_of distinct_add_both)

text \<open>
  C9. Constructing a directed edge-list graph checks nothing: for every vertex count
  and every edge list the result holds the edges as given, so that a graph with an
  endpoint outside \<open>[0, nvertices)\<close> is constructed without an error.
\<close>

theorem directed_init_unchecked:
  "GraphEL_init ordE n es True = \<lparr>nvertices = n, directed = True, edges = es\<rparr>
   \<and> \<not> edges_in_range (GraphEL_init ordE 3 [(0, 7), (- 1, 2)] True)"
  by (simp add: GraphEL_init_def edges_in_range_def)

section \<open>Conversions\<close>

text \<open>
  C8. The directed edge-list graph on 3 vertices with edges \<open>(0, 1)\<close> and \<open>(1, 2)\<close>
  converts to the adjacency lists \<open>[[1], [2], []]\<close>, and converting back gives a graph
  whose edge set is \<open>{(0, 1), (1, 2)}\<close>.
\<close>

theorem scenario_path3:
  "toGraphAL ordV \<lparr>nvertices = 3, directed = True, edges = [(0, 1), (1, 2)]\<rparr>
     = Inr \<lparr>nverticesAL = 3, directedAL = True, neighbors = [[1], [2], []]\<rparr>
   \<and> toGraphEL ordE \<lparr>nverticesAL = 3, directedAL = True, neighbors = [[1], [2], []]\<rparr>
     = Inr \<lparr>nvertices = 3, directed = True, edges = [(0, 1), (1, 2)]\<rparr>
   \<and> set (edges \<lparr>nvertices = 3, directed = True, edges = [(0, 1), (1, 2)]\<rparr>) = {(0, 1), (1, 2)}"
  by (simp add: toGraphAL_def GraphAL_init_def toGraphEL_def GraphEL_init_def py_index_def
      range_py_def upto.simps numeral_3_eq_3)

section \<open>Equality of adjacency-list graphs\<close>

text \<open>
  C1. \<open>GraphAL_eq\<close> should return the boolean result of comparing the edge-list form
  of the graph with the argument. On the one-vertex graph without edges and its own
  edge-list form the comparison gives \<open>True\<close>, and the method returns \<open>None\<close>.
\<close>

theorem GraphAL_eq_no_result:
  "GraphAL_eq ordE \<lparr>nverticesAL = 1, directedAL = True, neighbors = [[]]\<rparr>
      (EL \<lparr>nvertices = 1, directed = True, edges = []\<rparr>) = Inr None
   \<and> toGraphEL ordE \<lparr>nverticesAL = 1, directedAL = True, neighbors = [[]]\<rparr>
       = Inr \<lparr>nvertices = 1, directed = True, edges = []\<rparr>
   \<and> GraphEL_eq ordE \<lparr>nvertices = 1, directed = True, edges = []\<rparr>
       (EL \<lparr>nvertices = 1, directed = True, edges = []\<rparr>) = Inr True"
  by (simp add: GraphAL_eq_def toGraphEL_def GraphEL_eq_def GraphEL_init_def py_index_def
      range_py_def upto.simps)

section \<open>Ranges, swaps and the two shuffles\<close>

lemma set_range_py: "set (range_py n) = {0..<n}"
  by (auto simp: range_py_def)

lemma distinct_range_py: "distinct (range_py n)"
  by (simp add: range_py_def)

lemma length_range_py: "length (range_py n) = nat n"
  by (simp add: range_py_def)

lemma nth_range_py: "k < nat n \<Longrightarrow> range_py n ! k = int k"
  by (simp add: range_py_def)

lemma fold_invariant:
  "(\<And>x s. x \<in> set xs \<Longrightarrow> P s \<Longrightarrow> P (f x s)) \<Longrightarrow> P s \<Longrightarrow> P (fold f xs s)"
  by (induction xs arbitrary: s) auto


lemma mset_swap_list: "i < length l \<Longrightarrow> j < length l \<Longrightarrow> mset (swap i j l) = mset l"
  by (simp add: swap_def mset_swap)

lemma length_swap: "length (swap i j l) = length l"
  by (simp add: swap_def)

lemma randrange_bounds:
  assumes "a < b"
  shows "a \<le> fst (randrange a b g)" and "fst (randrange a b g) < b"
proof -
  from assms have "g 0 mod (b - a) < b - a" by simp
  then show "fst (randrange a b g) < b" by (simp add: randrange_def)
  show "a \<le> fst (randrange a b g)" by (simp add: randrange_def)
qed

lemma mset_cycle_shuffle: "mset (fst (cycle_shuffle l g)) = mset l"
proof -
  let ?f = "\<lambda>i (y, h). case randrange (i + 1) (length l) h of (j, h') \<Rightarrow> (swap i j y, h')"
  have "mset (fst (fold ?f [0..<length l - 1] (l, g))) = mset l
        \<and> length (fst (fold ?f [0..<length l - 1] (l, g))) = length l"
  proof (rule fold_invariant [where P = "\<lambda>s. mset (fst s) = mset l \<and> length (fst s) = length l"])
    fix i and s :: "'a list \<times> rng"
    assume i: "i \<in> set [0..<length l - 1]"
      and s: "mset (fst s) = mset l \<and> length (fst s) = length l"
    obtain y h where sy: "s = (y, h)" by (cases s)
    from i have "i + 1 < length l" by auto
    then have "fst (randrange (i + 1) (length l) h) < length l"
      by (rule randrange_bounds)
    with i s sy show "mset (fst (?f i s)) = mset l \<and> length (fst (?f i s)) = length l"
      by (auto simp: mset_swap_list length_swap split: prod.splits)
  qed simp
  then show ?thesis by (simp add: cycle_shuffle_def Let_def)
qed

lemma mset_shuffle: "mset (fst (shuffle x g)) = mset x"
proof -
  let ?f = "\<lambda>i (y, h). case randrange 0 (i + 1) h of (j, h') \<Rightarrow> (swap i j y, h')"
  have "mset (fst (fold ?f (rev [1..<length x]) (x, g))) = mset x
        \<and> length (fst (fold ?f (rev [1..<length x]) (x, g))) = length x"
  proof (rule fold_invariant [where P = "\<lambda>s. mset (fst s) = mset x \<and> length (fst s) = length x"])
    fix i and s :: "'a list \<times> rng"
    assume i: "i \<in> set (rev [1..<length x])"
      and s: "mset (fst s) = mset x \<and> length (fst s) = length x"
    obtain y h where sy: "s = (y, h)" by (cases s)
    from i have il: "i < length x" by auto
    have "fst (randrange 0 (i + 1) h) < i + 1"
      by (rule randrange_bounds) simp
    with il have "fst (randrange 0 (i + 1) h) < length x" by simp
    with il s sy show "mset (fst (?f i s)) = mset x \<and> length (fst (?f i s)) = length x"
      by (auto simp: mset_swap_list length_swap split: prod.splits)
  qed simp
  then show ?thesis by (simp add: shuffle_def)
qed

section \<open>The path through the shuffled vertices\<close>

lemma set_fold_set_add: "set (fold (\<lambda>i s. set_add (f i) s) xs s) = set s \<union> f ` set xs"
  by (induction xs arbitrary: s) (auto simp: set_set_add)

lemma distinct_fold_set_add:
  "distinct s \<Longrightarrow> distinct (fold (\<lambda>i s. set_add (f i) s) xs s)"
  by (induction xs arbitrary: s) (auto simp: distinct_set_add)

lemma set_path_edges:
  "set (path_edges line) = (\<lambda>i. (line ! i, line ! (i + 1))) ` {0..<length line - 1}"
  by (simp add: path_edges_def set_fold_set_add)

lemma distinct_path_edges: "distinct (path_edges line)"
  by (simp add: path_edges_def distinct_fold_set_add)

lemma length_path_edges:
  assumes "distinct line"
  shows "length (path_edges line) = length line - 1"
proof -
  have "inj_on (\<lambda>i. (line ! i, line ! (i + 1))) {0..<length line - 1}"
    using assms by (auto simp: inj_on_def nth_eq_iff_index_eq)
  then have "card (set (path_edges line)) = length line - 1"
    by (simp add: set_path_edges card_image)
  then show ?thesis by (simp add: distinct_card distinct_path_edges)
qed

lemma path_edges_no_loop:
  assumes "distinct line" and "(a, b) \<in> set (path_edges line)"
  shows "a \<noteq> b"
  using assms by (auto simp: set_path_edges nth_eq_iff_index_eq)

lemma path_edges_endpoints:
  assumes "(a, b) \<in> set (path_edges line)"
  shows "a \<in> set line \<and> b \<in> set line"
  using assms by (auto simp: set_path_edges)

section \<open>All possible edges\<close>

lemma concat_if_singleton:
  "concat (map (\<lambda>y. if P y then [f y] else []) ys) = map f (filter P ys)"
  by (induction ys) auto

lemma all_edges_of_alt:
  "all_edges_of n =
     concat (map (\<lambda>v1. map (Pair v1) (filter (\<lambda>v2. v1 \<noteq> v2) (range_py n))) (range_py n))"
  by (simp add: all_edges_of_def concat_if_singleton)

lemma set_all_edges_of:
  "set (all_edges_of n) = {(a, b). 0 \<le> a \<and> a < n \<and> 0 \<le> b \<and> b < n \<and> a \<noteq> b}"
  by (auto simp: all_edges_of_alt set_range_py)

lemma distinct_pairs_from:
  "distinct xs \<Longrightarrow> distinct ys \<Longrightarrow>
     distinct (concat (map (\<lambda>x. map (Pair x) (filter (P x) ys)) xs))"
  by (induction xs) (auto simp: distinct_map inj_on_def)

lemma distinct_all_edges_of: "distinct (all_edges_of n)"
  by (simp add: all_edges_of_alt distinct_pairs_from distinct_range_py)

lemma length_filter_neq:
  assumes "distinct ys" and "x \<in> set ys"
  shows "length (filter (\<lambda>y. x \<noteq> y) ys) = length ys - 1"
proof -
  have "filter (\<lambda>y. x \<noteq> y) ys = removeAll x ys"
    by (induction ys) auto
  also have "\<dots> = remove1 x ys"
    using assms(1) by (simp add: distinct_remove1_removeAll)
  finally show ?thesis using assms(2) by (simp add: length_remove1)
qed

lemma length_pairs_from:
  "distinct ys \<Longrightarrow> set xs \<subseteq> set ys \<Longrightarrow>
     length (concat (map (\<lambda>x. map (Pair x) (filter (\<lambda>y. x \<noteq> y) ys)) xs))
       = length xs * (length ys - 1)"
  by (induction xs) (auto simp: length_filter_neq)

lemma length_all_edges_of: "length (all_edges_of n) = nat n * (nat n - 1)"
  by (simp add: all_edges_of_alt length_pairs_from distinct_range_py length_range_py)

lemma int_length_all_edges_of:
  assumes "0 \<le> n"
  shows "int (length (all_edges_of n)) = n * (n - 1)"
proof (cases "n = 0")
  case True
  then show ?thesis by (simp add: length_all_edges_of)
next
  case False
  with assms have "1 \<le> n" by simp
  then have "int (nat n - 1) = n - 1" by simp
  with assms show ?thesis by (simp add: length_all_edges_of)
qed

section \<open>The loop that adds the extra edges\<close>

lemma add_extra_mono: "set s \<subseteq> set (add_extra es s k)"
  by (induction es s k rule: add_extra.induct) (auto simp: set_set_add)

lemma add_extra_subset: "set (add_extra es s k) \<subseteq> set s \<union> set es"
  by (induction es s k rule: add_extra.induct) (auto simp: set_set_add)

lemma distinct_add_extra: "distinct s \<Longrightarrow> distinct (add_extra es s k)"
  by (induction es s k rule: add_extra.induct) (auto simp: distinct_set_add)

lemma length_add_extra:
  "distinct es \<Longrightarrow> 0 < k \<Longrightarrow>
     length (add_extra es s k) = length s + min (nat k) (card (set es - set s))"
proof (induction es s k rule: add_extra.induct)
  case (1 s nedges)
  then show ?case by simp
next
  case (2 e es s nedges)
  from "2.prems" have e: "e \<notin> set es" and d: "distinct es" by auto
  show ?case
  proof (cases "e \<in> set s")
    case True
    then have "set (e # es) - set s = set es - set s" by auto
    with True 2 d show ?thesis by simp
  next
    case False
    have fin: "finite (set es - set s)" by simp
    from False e have c: "card (set (e # es) - set s) = Suc (card (set es - set s))"
      by (simp add: insert_Diff_if)
    show ?thesis
    proof (cases "nedges - 1 \<le> 0")
      case True
      with "2.prems" have "nat nedges = 1" by simp
      with False True c show ?thesis by (simp add: set_add_def)
    next
      case k: False
      from False e have "set es - set (set_add e s) = set es - set s"
        by (auto simp: set_set_add)
      moreover from k have "nat nedges = Suc (nat (nedges - 1))" by simp
      moreover have "length (set_add e s) = Suc (length s)"
        using False by (simp add: set_add_def)
      ultimately show ?thesis
        using "2.IH"(1) [OF False k d] False k c by simp
    qed
  qed
qed

section \<open>The generated graph\<close>

lemma mset_line_of: "mset (line_of g n) = mset (range_py n)"
  by (simp add: line_of_def mset_cycle_shuffle)

lemma distinct_line_of: "distinct (line_of g n)"
  using mset_eq_imp_distinct_iff [OF mset_line_of [of g n]] distinct_range_py [of n]
  by simp

lemma set_line_of: "set (line_of g n) = {0..<n}"
  using mset_eq_setD [OF mset_line_of [of g n]] by (simp add: set_range_py)

lemma length_line_of: "length (line_of g n) = nat n"
  using mset_eq_length [OF mset_line_of [of g n]] by (simp add: length_range_py)

lemma mset_shuffled_edges: "mset (shuffled_edges g n) = mset (all_edges_of n)"
  by (simp add: shuffled_edges_def mset_shuffle)

lemma distinct_shuffled_edges: "distinct (shuffled_edges g n)"
  using mset_eq_imp_distinct_iff [OF mset_shuffled_edges [of g n]] distinct_all_edges_of [of n]
  by simp

lemma set_shuffled_edges: "set (shuffled_edges g n) = set (all_edges_of n)"
  using mset_shuffled_edges [of g n] by (rule mset_eq_setD)

lemma path_subset_all_edges: "set (path_edges (line_of g n)) \<subseteq> set (all_edges_of n)"
proof
  fix e assume e: "e \<in> set (path_edges (line_of g n))"
  obtain a b where ab: "e = (a, b)" by (cases e)
  from e ab have "a \<noteq> b"
    using path_edges_no_loop [OF distinct_line_of] by blast
  moreover from e ab have "a \<in> {0..<n} \<and> b \<in> {0..<n}"
    using path_edges_endpoints [of a b "line_of g n"] by (simp add: set_line_of)
  ultimately show "e \<in> set (all_edges_of n)"
    using ab by (simp add: set_all_edges_of)
qed

lemma randgraph_Inr:
  assumes "0 \<le> n" and "nedges \<le> n * (n - 1) - (n - 1)"
  shows "randgraph ordE g n nedges
           = Inr \<lparr>nvertices = n, directed = True, edges = list_of ordE (edge_set g n nedges)\<rparr>"
proof -
  have len: "int (length (all_edges_of n)) = n * (n - 1)"
    using assms(1) by (rule int_length_all_edges_of)
  obtain line g1 where c: "cycle_shuffle (range_py n) g = (line, g1)"
    by (cases "cycle_shuffle (range_py n) g")
  obtain sh g2 where s: "shuffle (all_edges_of n) g1 = (sh, g2)"
    by (cases "shuffle (all_edges_of n) g1")
  have "randgraph ordE g n nedges =
      Inr (GraphEL_init ordE n
            (list_of ordE (if nedges > 0 then add_extra sh (path_edges line) nedges
                           else path_edges line)) True)"
    unfolding randgraph_def using assms(2) by (simp only: c s len prod.case if_False not_not refl if_True simp_thms)
  moreover have "line_of g n = line" by (simp add: line_of_def c)
  moreover have "shuffled_edges g n = sh" by (simp add: shuffled_edges_def c s)
  ultimately show ?thesis
    by (simp only: GraphEL_init_def edge_set_def if_True)
qed

lemma set_edge_set_lower: "set (path_edges (line_of g n)) \<subseteq> set (edge_set g n nedges)"
  by (simp add: edge_set_def add_extra_mono)

lemma set_edge_set_upper: "set (edge_set g n nedges) \<subseteq> set (all_edges_of n)"
proof (cases "nedges > 0")
  case True
  then show ?thesis
    using add_extra_subset [of "shuffled_edges g n" "path_edges (line_of g n)" nedges]
      path_subset_all_edges [of g n]
    by (auto simp: edge_set_def set_shuffled_edges)
next
  case False
  then show ?thesis using path_subset_all_edges [of g n] by (simp add: edge_set_def)
qed

lemma distinct_edge_set: "distinct (edge_set g n nedges)"
  by (simp add: edge_set_def distinct_add_extra distinct_path_edges)

lemma card_fresh_edges:
  "card (set (shuffled_edges g n) - set (path_edges (line_of g n)))
     = nat n * (nat n - 1) - (nat n - 1)"
proof -
  have "card (set (shuffled_edges g n) - set (path_edges (line_of g n)))
          = card (set (shuffled_edges g n)) - card (set (path_edges (line_of g n)))"
    using path_subset_all_edges [of g n]
    by (intro card_Diff_subset) (simp_all add: set_shuffled_edges)
  also have "card (set (shuffled_edges g n)) = nat n * (nat n - 1)"
    using mset_eq_length [OF mset_shuffled_edges [of g n]]
    by (simp add: distinct_card distinct_shuffled_edges length_all_edges_of)
  also have "card (set (path_edges (line_of g n))) = nat n - 1"
    by (simp add: distinct_card distinct_path_edges length_path_edges distinct_line_of
        length_line_of)
  finally show ?thesis .
qed

lemma length_edge_set:
  assumes "1 \<le> n" and "0 \<le> nedges" and "nedges \<le> n * (n - 1) - (n - 1)"
  shows "int (length (edge_set g n nedges)) = (n - 1) + nedges"
proof (cases "nedges > 0")
  case False
  with assms show ?thesis
    by (simp add: edge_set_def length_path_edges distinct_line_of length_line_of)
next
  case True
  define m where "m = nat n - 1"
  from assms(1) have nm: "nat n = Suc m" and n: "n = int m + 1"
    by (simp_all add: m_def)
  have "n * (n - 1) - (n - 1) = int (m * m)"
    by (simp add: n algebra_simps)
  with assms(3) assms(2) have "nat nedges \<le> m * m" by linarith
  moreover have "nat n * (nat n - 1) - (nat n - 1) = m * m"
    by (simp add: nm)
  ultimately have "min (nat nedges) (nat n * (nat n - 1) - (nat n - 1)) = nat nedges"
    by simp
  then have "length (add_extra (shuffled_edges g n) (path_edges (line_of g n)) nedges)
               = (nat n - 1) + nat nedges"
    using True
    by (simp only: length_add_extra [OF distinct_shuffled_edges True] card_fresh_edges
        length_path_edges [OF distinct_line_of] length_line_of)
  with True have "length (edge_set g n nedges) = (nat n - 1) + nat nedges"
    by (simp only: edge_set_def if_True)
  with assms(2) show ?thesis by (simp add: n)
qed

section \<open>Properties of the generated graph\<close>

text \<open>
  C3. For \<open>nvertices \<ge> 1\<close> and \<open>0 \<le> nedges \<le> nvertices * (nvertices - 1) - (nvertices - 1)\<close>,
  whatever the random draws and the iteration order of the set, \<open>randgraph\<close> returns a
  directed graph on \<open>nvertices\<close> vertices with exactly \<open>(nvertices - 1) + nedges\<close> edges,
  none of them a self-loop and no two of them equal.
\<close>

theorem randgraph_edge_count:
  assumes "1 \<le> n" and "0 \<le> nedges" and "nedges \<le> n * (n - 1) - (n - 1)"
  shows "\<exists>gr. randgraph ordE g n nedges = Inr gr
               \<and> nvertices gr = n \<and> directed gr
               \<and> int (length (edges gr)) = (n - 1) + nedges
               \<and> (\<forall>(v1, v2) \<in> set (edges gr). v1 \<noteq> v2)
               \<and> distinct (edges gr)"
proof -
  let ?gr = "\<lparr>nvertices = n, directed = True, edges = list_of ordE (edge_set g n nedges)\<rparr>"
  from assms have r: "randgraph ordE g n nedges = Inr ?gr"
    by (intro randgraph_Inr) simp_all
  have len: "int (length (edges ?gr)) = (n - 1) + nedges"
    using assms by (simp add: length_list_of length_edge_set)
  have "set (edges ?gr) \<subseteq> set (all_edges_of n)"
    using set_edge_set_upper [of g n nedges] by (simp add: set_list_of)
  then have loops: "\<forall>(v1, v2) \<in> set (edges ?gr). v1 \<noteq> v2"
    by (auto simp: set_all_edges_of)
  have "distinct (edges ?gr)"
    by (simp add: distinct_list_of distinct_edge_set)
  with r len loops show ?thesis by simp
qed

theorem randgraph_edge_count_witness:
  "(1::int) \<le> 3 \<and> (0::int) \<le> 1 \<and> (1::int) \<le> 3 * (3 - 1) - (3 - 1)
   \<and> randgraph (\<lambda>xs. xs) (\<lambda>k. 0) 3 1
       = Inr \<lparr>nvertices = 3, directed = True, edges = [(1, 2), (2, 0), (0, 2)]\<rparr>
   \<and> int (length ([(1, 2), (2, 0), (0, 2)] :: edge list)) = (3 - 1) + 1
   \<and> distinct ([(1, 2), (2, 0), (0, 2)] :: edge list)"
proof -
  have e: "randgraph (\<lambda>xs. xs) (\<lambda>k. 0) 3 1
             = Inr \<lparr>nvertices = 3, directed = True, edges = [(1, 2), (2, 0), (0, 2)]\<rparr>"
    by code_simp
  have "\<exists>gr. randgraph (\<lambda>xs. xs) (\<lambda>k. 0) 3 1 = Inr gr
             \<and> nvertices gr = 3 \<and> directed gr
             \<and> int (length (edges gr)) = (3 - 1) + 1
             \<and> (\<forall>(v1, v2) \<in> set (edges gr). v1 \<noteq> v2)
             \<and> distinct (edges gr)"
    by (rule randgraph_edge_count) simp_all
  with e show ?thesis by auto
qed

text \<open>
  C7. For \<open>nvertices \<ge> 1\<close> and \<open>nedges\<close> within the bound, whatever the random draws,
  the line of step 1 holds every vertex exactly once, and each pair of consecutive
  vertices of the line is an edge of the graph that \<open>randgraph\<close> returns.
\<close>

theorem randgraph_hamiltonian_path:
  assumes "1 \<le> n" and "nedges \<le> n * (n - 1) - (n - 1)"
  shows "\<exists>gr. randgraph ordE g n nedges = Inr gr
               \<and> distinct (line_of g n) \<and> set (line_of g n) = {0..<n}
               \<and> (\<forall>i. i + 1 < length (line_of g n)
                      \<longrightarrow> (line_of g n ! i, line_of g n ! (i + 1)) \<in> set (edges gr))"
proof -
  let ?gr = "\<lparr>nvertices = n, directed = True, edges = list_of ordE (edge_set g n nedges)\<rparr>"
  from assms have r: "randgraph ordE g n nedges = Inr ?gr"
    by (intro randgraph_Inr) simp_all
  have "\<forall>i. i + 1 < length (line_of g n)
          \<longrightarrow> (line_of g n ! i, line_of g n ! (i + 1)) \<in> set (edges ?gr)"
  proof (intro allI impI)
    fix i assume "i + 1 < length (line_of g n)"
    then have "(line_of g n ! i, line_of g n ! (i + 1)) \<in> set (path_edges (line_of g n))"
      by (auto simp: set_path_edges)
    then show "(line_of g n ! i, line_of g n ! (i + 1)) \<in> set (edges ?gr)"
      using set_edge_set_lower [of g n nedges] by (auto simp: set_list_of)
  qed
  with r distinct_line_of [of g n] set_line_of [of g n] show ?thesis by blast
qed

theorem randgraph_hamiltonian_path_witness:
  "(1::int) \<le> 3 \<and> (1::int) \<le> 3 * (3 - 1) - (3 - 1)
   \<and> randgraph (\<lambda>xs. xs) (\<lambda>k. 0) 3 1
       = Inr \<lparr>nvertices = 3, directed = True, edges = [(1, 2), (2, 0), (0, 2)]\<rparr>
   \<and> line_of (\<lambda>k. 0) 3 = [1, 2, 0]
   \<and> distinct (line_of (\<lambda>k. 0) 3) \<and> set (line_of (\<lambda>k. 0) 3) = {0..<3}
   \<and> (line_of (\<lambda>k. 0) 3 ! 0, line_of (\<lambda>k. 0) 3 ! 1) \<in> set [(1, 2), (2, 0), (0, 2)]
   \<and> (line_of (\<lambda>k. 0) 3 ! 1, line_of (\<lambda>k. 0) 3 ! 2) \<in> set [(1, 2), (2, 0), (0, 2)]"
proof -
  have e: "randgraph (\<lambda>xs. xs) (\<lambda>k. 0) 3 1
             = Inr \<lparr>nvertices = 3, directed = True, edges = [(1, 2), (2, 0), (0, 2)]\<rparr>"
    by code_simp
  have l: "line_of (\<lambda>k. 0) 3 = [1, 2, 0]"
    by code_simp
  have "\<exists>gr. randgraph (\<lambda>xs. xs) (\<lambda>k. 0) 3 1 = Inr gr
             \<and> distinct (line_of (\<lambda>k. 0) 3) \<and> set (line_of (\<lambda>k. 0) 3) = {0..<3}
             \<and> (\<forall>i. i + 1 < length (line_of (\<lambda>k. 0) 3)
                    \<longrightarrow> (line_of (\<lambda>k. 0) 3 ! i, line_of (\<lambda>k. 0) 3 ! (i + 1)) \<in> set (edges gr))"
    by (rule randgraph_hamiltonian_path) simp_all
  then have "distinct (line_of (\<lambda>k. 0) 3) \<and> set (line_of (\<lambda>k. 0) 3) = {0..<3}"
    by blast
  with e l show ?thesis by simp
qed

text \<open>
  C5. \<open>undirected\<close> fails on a graph that is not directed and returns a graph on a
  directed one; \<open>randgraph\<close> fails when \<open>nedges\<close> exceeds
  \<open>nvertices * (nvertices - 1) - (nvertices - 1)\<close> and, for a vertex count that is not
  negative, returns a graph when it does not.
\<close>

theorem precondition_errors:
  "(\<not> directed gr \<longrightarrow> undirected ordE gr = Inl AssertionError)
   \<and> (directed gr \<longrightarrow> (\<exists>u. undirected ordE gr = Inr u))
   \<and> (nedges > n * (n - 1) - (n - 1) \<longrightarrow> randgraph ordE g n nedges = Inl AssertionError)
   \<and> (0 \<le> n \<and> nedges \<le> n * (n - 1) - (n - 1) \<longrightarrow> (\<exists>r. randgraph ordE g n nedges = Inr r))"
proof (intro conjI impI)
  assume "\<not> directed gr"
  then show "undirected ordE gr = Inl AssertionError" by (simp add: undirected_def)
next
  assume "directed gr"
  then show "\<exists>u. undirected ordE gr = Inr u" by (simp add: undirected_def)
next
  assume "nedges > n * (n - 1) - (n - 1)"
  then show "randgraph ordE g n nedges = Inl AssertionError" by (simp add: randgraph_def)
next
  assume "0 \<le> n \<and> nedges \<le> n * (n - 1) - (n - 1)"
  then show "\<exists>r. randgraph ordE g n nedges = Inr r" by (simp add: randgraph_Inr)
qed

theorem precondition_errors_witness:
  "undirected (\<lambda>xs. xs) \<lparr>nvertices = 2, directed = True, edges = [(0, 1)]\<rparr>
     = Inr \<lparr>nvertices = 2, directed = False, edges = [(0, 1), (1, 0)]\<rparr>
   \<and> undirected (\<lambda>xs. xs) \<lparr>nvertices = 2, directed = False, edges = [(0, 1), (1, 0)]\<rparr>
     = Inl AssertionError
   \<and> (5::int) > 3 * (3 - 1) - (3 - 1)
   \<and> randgraph (\<lambda>xs. xs) (\<lambda>k. 0) 3 5 = Inl AssertionError
   \<and> (0::int) \<le> 3 \<and> (4::int) \<le> 3 * (3 - 1) - (3 - 1)
   \<and> (\<exists>r. randgraph (\<lambda>xs. xs) (\<lambda>k. 0) 3 4 = Inr r)"
proof -
  have u: "undirected (\<lambda>xs. xs) \<lparr>nvertices = 2, directed = True, edges = [(0, 1)]\<rparr>
             = Inr \<lparr>nvertices = 2, directed = False, edges = [(0, 1), (1, 0)]\<rparr>"
    by code_simp
  from precondition_errors [of "\<lparr>nvertices = 2, directed = False, edges = [(0, 1), (1, 0)]\<rparr>"
      "\<lambda>xs. xs" 3 5 "\<lambda>k. 0"]
  have a: "undirected (\<lambda>xs. xs) \<lparr>nvertices = 2, directed = False, edges = [(0, 1), (1, 0)]\<rparr>
             = Inl AssertionError
           \<and> randgraph (\<lambda>xs. xs) (\<lambda>k. 0) 3 5 = Inl AssertionError"
    by simp
  from precondition_errors [of "\<lparr>nvertices = 2, directed = True, edges = [(0, 1)]\<rparr>"
      "\<lambda>xs. xs" 3 4 "\<lambda>k. 0"]
  have b: "\<exists>r. randgraph (\<lambda>xs. xs) (\<lambda>k. 0) 3 4 = Inr r"
    by simp
  from u a b show ?thesis by simp
qed

section \<open>The cyclic shuffle\<close>





subsection \<open>The steps of the loop as exchanges of positions\<close>









subsection \<open>One cycle through the positions not yet final\<close>







subsection \<open>The line is cyclic, and every cyclic permutation is reached\<close>











section \<open>From edge list to adjacency list and back\<close>

lemma py_index_in_range: "0 \<le> v \<Longrightarrow> v < int len \<Longrightarrow> py_index len v = Some (nat v)"
  by (simp add: py_index_def)

lemma append_neighbors_Inr:
  "\<forall>(a, b) \<in> set es. 0 \<le> a \<and> a < int (length nb) \<Longrightarrow>
     \<exists>nb'. append_neighbors es nb = Inr nb' \<and> length nb' = length nb
        \<and> (\<forall>k<length nb. set (nb' ! k) = set (nb ! k) \<union> {b. (int k, b) \<in> set es})"
proof (induction es arbitrary: nb)
  case Nil
  then show ?case by simp
next
  case (Cons e es)
  obtain a b where e: "e = (a, b)" by (cases e)
  from Cons.prems e have a: "0 \<le> a" "a < int (length nb)" by simp_all
  let ?nb1 = "nb[nat a := nb ! nat a @ [b]]"
  from Cons.prems have "\<forall>(a, b) \<in> set es. 0 \<le> a \<and> a < int (length ?nb1)" by simp
  from Cons.IH [OF this] obtain nb' where r: "append_neighbors es ?nb1 = Inr nb'"
    and len: "length nb' = length nb"
    and sets: "\<And>k. k < length nb \<Longrightarrow>
                 set (nb' ! k) = set (?nb1 ! k) \<union> {b. (int k, b) \<in> set es}"
    by auto
  have "append_neighbors (e # es) nb = Inr nb'"
    using a by (simp add: e py_index_in_range r)
  moreover have "\<forall>k<length nb. set (nb' ! k) = set (nb ! k) \<union> {b. (int k, b) \<in> set (e # es)}"
  proof (intro allI impI)
    fix k assume k: "k < length nb"
    show "set (nb' ! k) = set (nb ! k) \<union> {b. (int k, b) \<in> set (e # es)}"
    proof (cases "k = nat a")
      case True
      with a k have "int k = a" by simp
      with True k sets [OF k] show ?thesis by (auto simp: e)
    next
      case False
      with a have "int k \<noteq> a" by auto
      with False k sets [OF k] show ?thesis by (auto simp: e)
    qed
  qed
  ultimately show ?case using len by blast
qed

lemma add_neighbors_Inr:
  "\<forall>(a, b) \<in> set es. 0 \<le> a \<and> a < int (length nb) \<and> 0 \<le> b \<and> b < int (length nb) \<Longrightarrow>
     \<exists>nb'. add_neighbors es nb = Inr nb' \<and> length nb' = length nb
        \<and> (\<forall>k<length nb. set (nb' ! k)
              = set (nb ! k) \<union> {b. (int k, b) \<in> set es} \<union> {a. (a, int k) \<in> set es})"
proof (induction es arbitrary: nb)
  case Nil
  then show ?case by simp
next
  case (Cons e es)
  obtain a b where e: "e = (a, b)" by (cases e)
  from Cons.prems e have a: "0 \<le> a" "a < int (length nb)"
    and b: "0 \<le> b" "b < int (length nb)" by simp_all
  let ?nb1 = "nb[nat a := set_add b (nb ! nat a)]"
  let ?nb2 = "?nb1[nat b := set_add a (?nb1 ! nat b)]"
  from Cons.prems have
    "\<forall>(a, b) \<in> set es. 0 \<le> a \<and> a < int (length ?nb2) \<and> 0 \<le> b \<and> b < int (length ?nb2)"
    by simp
  from Cons.IH [OF this] obtain nb' where r: "add_neighbors es ?nb2 = Inr nb'"
    and len: "length nb' = length nb"
    and sets: "\<And>k. k < length nb \<Longrightarrow> set (nb' ! k)
                 = set (?nb2 ! k) \<union> {b. (int k, b) \<in> set es} \<union> {a. (a, int k) \<in> set es}"
    by auto
  have "add_neighbors (e # es) nb = Inr nb'"
    using a b by (simp add: e py_index_in_range r)
  moreover have "\<forall>k<length nb. set (nb' ! k)
      = set (nb ! k) \<union> {b. (int k, b) \<in> set (e # es)} \<union> {a. (a, int k) \<in> set (e # es)}"
  proof (intro allI impI)
    fix k assume k: "k < length nb"
    have ka: "int k = a \<longleftrightarrow> k = nat a" using a by auto
    have kb: "int k = b \<longleftrightarrow> k = nat b" using b by auto
    have "set (?nb2 ! k) = set (nb ! k) \<union> (if k = nat a then {b} else {})
                             \<union> (if k = nat b then {a} else {})"
      using k by (auto simp: nth_list_update set_set_add)
    with sets [OF k] ka kb
    show "set (nb' ! k)
      = set (nb ! k) \<union> {b. (int k, b) \<in> set (e # es)} \<union> {a. (a, int k) \<in> set (e # es)}"
      by (auto simp: e)
  qed
  ultimately show ?case using len by blast
qed

lemma collect_edges_Inr:
  "\<forall>v \<in> set vs. 0 \<le> v \<and> v < int (length nb) \<Longrightarrow>
     collect_edges nb vs acc = Inr (acc @ concat (map (\<lambda>v. map (Pair v) (nb ! nat v)) vs))"
  by (induction vs arbitrary: acc) (simp_all add: py_index_in_range)

lemma collect_edges_range:
  assumes "length nb = nat n"
  shows "\<exists>es. collect_edges nb (range_py n) [] = Inr es
           \<and> set es = {(v, w). 0 \<le> v \<and> v < n \<and> w \<in> set (nb ! nat v)}"
proof -
  have "\<forall>v \<in> set (range_py n). 0 \<le> v \<and> v < int (length nb)"
    using assms by (auto simp: set_range_py)
  then have "collect_edges nb (range_py n) []
               = Inr ([] @ concat (map (\<lambda>v. map (Pair v) (nb ! nat v)) (range_py n)))"
    by (rule collect_edges_Inr)
  moreover have "set (concat (map (\<lambda>v. map (Pair v) (nb ! nat v)) (range_py n)))
                   = {(v, w). 0 \<le> v \<and> v < n \<and> w \<in> set (nb ! nat v)}"
    by (auto simp: set_range_py)
  ultimately show ?thesis by simp
qed

lemma roundtrip_directed:
  assumes "\<forall>(a, b) \<in> set es. 0 \<le> a \<and> a < n"
  shows "\<exists>al gr'. toGraphAL ordV \<lparr>nvertices = n, directed = True, edges = es\<rparr> = Inr al
           \<and> toGraphEL ordE al = Inr gr'
           \<and> nvertices gr' = n \<and> directed gr' \<and> set (edges gr') = set es"
proof -
  from assms have "\<forall>(a, b) \<in> set es. 0 \<le> a \<and> a < int (length (replicate (nat n) ([]::vertex list)))"
    by auto
  from append_neighbors_Inr [OF this] obtain nb
    where r: "append_neighbors es (replicate (nat n) []) = Inr nb"
      and len: "length nb = nat n"
      and sets: "\<And>k. k < nat n \<Longrightarrow> set (nb ! k) = {b. (int k, b) \<in> set es}"
    by auto
  let ?al = "\<lparr>nverticesAL = n, directedAL = True, neighbors = nb\<rparr>"
  have al: "toGraphAL ordV \<lparr>nvertices = n, directed = True, edges = es\<rparr> = Inr ?al"
    by (simp add: toGraphAL_def GraphAL_init_def r)
  from collect_edges_range [OF len] obtain es'
    where c: "collect_edges nb (range_py n) [] = Inr es'"
      and es': "set es' = {(v, w). 0 \<le> v \<and> v < n \<and> w \<in> set (nb ! nat v)}"
    by auto
  have "set es' = set es"
  proof (rule set_eqI)
    fix e :: edge
    obtain v w where e: "e = (v, w)" by (cases e)
    show "e \<in> set es' \<longleftrightarrow> e \<in> set es"
    proof (cases "0 \<le> v \<and> v < n")
      case True
      then have "nat v < nat n" by simp
      from sets [OF this] True show ?thesis by (simp add: e es')
    next
      case False
      with assms show ?thesis by (auto simp: e es')
    qed
  qed
  moreover have "toGraphEL ordE ?al = Inr \<lparr>nvertices = n, directed = True, edges = es'\<rparr>"
    by (simp add: toGraphEL_def c GraphEL_init_def)
  ultimately show ?thesis using al by simp
qed

lemma roundtrip_undirected:
  assumes "\<forall>(a, b) \<in> set es. 0 \<le> a \<and> a < n \<and> 0 \<le> b \<and> b < n"
  shows "\<exists>al gr'. toGraphAL ordV \<lparr>nvertices = n, directed = False, edges = es\<rparr> = Inr al
           \<and> toGraphEL ordE al = Inr gr'
           \<and> nvertices gr' = n \<and> \<not> directed gr' \<and> set (edges gr') = set es \<union> (set es)\<inverse>"
proof -
  let ?init = "replicate (nat n) ([]::vertex list)"
  from assms have "\<forall>(a, b) \<in> set es. 0 \<le> a \<and> a < int (length ?init)
                      \<and> 0 \<le> b \<and> b < int (length ?init)"
    by auto
  from add_neighbors_Inr [OF this] obtain nb
    where r: "add_neighbors es ?init = Inr nb"
      and len: "length nb = nat n"
      and sets: "\<And>k. k < nat n \<Longrightarrow>
                   set (nb ! k) = {b. (int k, b) \<in> set es} \<union> {a. (a, int k) \<in> set es}"
    by auto
  let ?nb = "map (\<lambda>v. list_of ordV (nb ! nat v)) (range_py n)"
  let ?al = "\<lparr>nverticesAL = n, directedAL = False, neighbors = ?nb\<rparr>"
  have al: "toGraphAL ordV \<lparr>nvertices = n, directed = False, edges = es\<rparr> = Inr ?al"
    by (simp add: toGraphAL_def GraphAL_init_def r)
  have len': "length ?nb = nat n" by (simp add: length_range_py)
  have nth: "\<And>k. k < nat n \<Longrightarrow> set (?nb ! k) = set (nb ! k)"
    by (simp add: length_range_py nth_range_py set_list_of)
  from collect_edges_range [OF len'] obtain es'
    where c: "collect_edges ?nb (range_py n) [] = Inr es'"
      and es': "set es' = {(v, w). 0 \<le> v \<and> v < n \<and> w \<in> set (?nb ! nat v)}"
    by auto
  have "set es' = set es \<union> (set es)\<inverse>"
  proof (rule set_eqI)
    fix e :: edge
    obtain v w where e: "e = (v, w)" by (cases e)
    show "e \<in> set es' \<longleftrightarrow> e \<in> set es \<union> (set es)\<inverse>"
    proof (cases "0 \<le> v \<and> v < n")
      case True
      then have k: "nat v < nat n" by simp
      have "e \<in> set es' \<longleftrightarrow> w \<in> set (nb ! nat v)"
        using True nth [OF k] by (simp add: e es')
      with sets [OF k] True show ?thesis by (simp add: e)
    next
      case False
      then have "e \<notin> set es'" by (auto simp: e es')
      moreover from False assms have "e \<notin> set es \<union> (set es)\<inverse>" by (auto simp: e)
      ultimately show ?thesis by simp
    qed
  qed
  then have "set (edges (GraphEL_init ordE n es' False)) = set es \<union> (set es)\<inverse>"
    by (auto simp: set_edges_undirected_init)
  moreover have "toGraphEL ordE ?al = Inr (GraphEL_init ordE n es' False)"
    using c by (simp add: toGraphEL_def)
  moreover have "nvertices (GraphEL_init ordE n es' False) = n"
    and "\<not> directed (GraphEL_init ordE n es' False)"
    by (simp_all add: GraphEL_init_def)
  ultimately show ?thesis using al by blast
qed

lemma GraphEL_eq_True:
  assumes "directed a = directed b" and "nvertices a = nvertices b"
    and "set (edges a) = set (edges b)"
  shows "GraphEL_eq ordE a (EL b) = Inr True"
  using assms by (simp add: GraphEL_eq_def)

text \<open>
  C2. For \<open>nvertices \<ge> 1\<close> and \<open>nedges\<close> within the bound, whatever the random draws and
  the iteration orders of the sets, the generated graph and its undirected version are
  both converted to adjacency lists and back without an error, and the result equals
  the graph converted, in the sense of \<open>GraphEL_eq\<close> (directed flag, vertex count and
  set of edges), with either graph on the left of the comparison.
\<close>

theorem randgraph_roundtrip:
  assumes "1 \<le> n" and "nedges \<le> n * (n - 1) - (n - 1)"
  shows "\<exists>gr al gr' u ual u'.
           randgraph ordE g n nedges = Inr gr
           \<and> toGraphAL ordV gr = Inr al \<and> toGraphEL ordE al = Inr gr'
           \<and> GraphEL_eq ordE gr' (EL gr) = Inr True \<and> GraphEL_eq ordE gr (EL gr') = Inr True
           \<and> undirected ordE gr = Inr u
           \<and> toGraphAL ordV u = Inr ual \<and> toGraphEL ordE ual = Inr u'
           \<and> GraphEL_eq ordE u' (EL u) = Inr True \<and> GraphEL_eq ordE u (EL u') = Inr True"
proof -
  let ?es = "list_of ordE (edge_set g n nedges)"
  let ?gr = "\<lparr>nvertices = n, directed = True, edges = ?es\<rparr>"
  from assms have r: "randgraph ordE g n nedges = Inr ?gr"
    by (intro randgraph_Inr) simp_all
  have range: "\<forall>(a, b) \<in> set ?es. 0 \<le> a \<and> a < n \<and> 0 \<le> b \<and> b < n"
    using set_edge_set_upper [of g n nedges] by (auto simp: set_list_of set_all_edges_of)
  then have "\<forall>(a, b) \<in> set ?es. 0 \<le> a \<and> a < n" by auto
  from roundtrip_directed [OF this, of ordV ordE] obtain al gr'
    where al: "toGraphAL ordV ?gr = Inr al" and gr': "toGraphEL ordE al = Inr gr'"
      and same: "nvertices gr' = n" "directed gr'" "set (edges gr') = set ?es"
    by blast
  from same have eq1: "GraphEL_eq ordE gr' (EL ?gr) = Inr True"
    by (intro GraphEL_eq_True) simp_all
  from same have eq2: "GraphEL_eq ordE ?gr (EL gr') = Inr True"
    by (intro GraphEL_eq_True) simp_all
  let ?us = "list_of ordE (add_both ?es [])"
  let ?u = "\<lparr>nvertices = n, directed = False, edges = ?us\<rparr>"
  have u: "undirected ordE ?gr = Inr ?u"
    by (simp add: undirected_def GraphEL_init_def)
  have us: "set ?us = set ?es \<union> (set ?es)\<inverse>"
    by (simp add: set_list_of set_add_both)
  with range have "\<forall>(a, b) \<in> set ?us. 0 \<le> a \<and> a < n \<and> 0 \<le> b \<and> b < n" by auto
  from roundtrip_undirected [OF this, of ordV ordE] obtain ual u'
    where ual: "toGraphAL ordV ?u = Inr ual" and u': "toGraphEL ordE ual = Inr u'"
      and same': "nvertices u' = n" "\<not> directed u'" "set (edges u') = set ?us \<union> (set ?us)\<inverse>"
    by blast
  from us have "set ?us \<union> (set ?us)\<inverse> = set ?us" by auto
  with same' have sym: "set (edges u') = set ?us" by simp
  from same' sym have eq3: "GraphEL_eq ordE u' (EL ?u) = Inr True"
    by (intro GraphEL_eq_True) simp_all
  from same' sym have eq4: "GraphEL_eq ordE ?u (EL u') = Inr True"
    by (intro GraphEL_eq_True) simp_all
  from r al gr' eq1 eq2 u ual u' eq3 eq4 show ?thesis by blast
qed

theorem randgraph_roundtrip_witness:
  "(1::int) \<le> 3 \<and> (1::int) \<le> 3 * (3 - 1) - (3 - 1)
   \<and> randgraph (\<lambda>xs. xs) (\<lambda>k. 0) 3 1
       = Inr \<lparr>nvertices = 3, directed = True, edges = [(1, 2), (2, 0), (0, 2)]\<rparr>
   \<and> toGraphAL (\<lambda>xs. xs) \<lparr>nvertices = 3, directed = True, edges = [(1, 2), (2, 0), (0, 2)]\<rparr>
       = Inr \<lparr>nverticesAL = 3, directedAL = True, neighbors = [[2], [2], [0]]\<rparr>
   \<and> toGraphEL (\<lambda>xs. xs) \<lparr>nverticesAL = 3, directedAL = True, neighbors = [[2], [2], [0]]\<rparr>
       = Inr \<lparr>nvertices = 3, directed = True, edges = [(0, 2), (1, 2), (2, 0)]\<rparr>
   \<and> GraphEL_eq (\<lambda>xs. xs) \<lparr>nvertices = 3, directed = True, edges = [(0, 2), (1, 2), (2, 0)]\<rparr>
         (EL \<lparr>nvertices = 3, directed = True, edges = [(1, 2), (2, 0), (0, 2)]\<rparr>) = Inr True
   \<and> undirected (\<lambda>xs. xs) \<lparr>nvertices = 3, directed = True, edges = [(1, 2), (2, 0), (0, 2)]\<rparr>
       = Inr \<lparr>nvertices = 3, directed = False, edges = [(1, 2), (2, 1), (2, 0), (0, 2)]\<rparr>
   \<and> toGraphAL (\<lambda>xs. xs)
         \<lparr>nvertices = 3, directed = False, edges = [(1, 2), (2, 1), (2, 0), (0, 2)]\<rparr>
       = Inr \<lparr>nverticesAL = 3, directedAL = False, neighbors = [[2], [2], [1, 0]]\<rparr>
   \<and> toGraphEL (\<lambda>xs. xs) \<lparr>nverticesAL = 3, directedAL = False, neighbors = [[2], [2], [1, 0]]\<rparr>
       = Inr \<lparr>nvertices = 3, directed = False, edges = [(0, 2), (2, 0), (1, 2), (2, 1)]\<rparr>
   \<and> GraphEL_eq (\<lambda>xs. xs)
         \<lparr>nvertices = 3, directed = False, edges = [(0, 2), (2, 0), (1, 2), (2, 1)]\<rparr>
         (EL \<lparr>nvertices = 3, directed = False, edges = [(1, 2), (2, 1), (2, 0), (0, 2)]\<rparr>)
       = Inr True"
proof -
  have e: "randgraph (\<lambda>xs. xs) (\<lambda>k. 0) 3 1
             = Inr \<lparr>nvertices = 3, directed = True, edges = [(1, 2), (2, 0), (0, 2)]\<rparr>"
    by code_simp
  have "\<exists>gr al gr' u ual u'.
           randgraph (\<lambda>xs. xs) (\<lambda>k. 0) 3 1 = Inr gr
           \<and> toGraphAL (\<lambda>xs. xs) gr = Inr al \<and> toGraphEL (\<lambda>xs. xs) al = Inr gr'
           \<and> GraphEL_eq (\<lambda>xs. xs) gr' (EL gr) = Inr True
           \<and> GraphEL_eq (\<lambda>xs. xs) gr (EL gr') = Inr True
           \<and> undirected (\<lambda>xs. xs) gr = Inr u
           \<and> toGraphAL (\<lambda>xs. xs) u = Inr ual \<and> toGraphEL (\<lambda>xs. xs) ual = Inr u'
           \<and> GraphEL_eq (\<lambda>xs. xs) u' (EL u) = Inr True
           \<and> GraphEL_eq (\<lambda>xs. xs) u (EL u') = Inr True"
    by (rule randgraph_roundtrip) simp_all
  then obtain al gr' u ual u' where
    al: "toGraphAL (\<lambda>xs. xs) \<lparr>nvertices = 3, directed = True, edges = [(1, 2), (2, 0), (0, 2)]\<rparr>
           = Inr al"
    and gr': "toGraphEL (\<lambda>xs. xs) al = Inr gr'"
    and eq1: "GraphEL_eq (\<lambda>xs. xs) gr'
                (EL \<lparr>nvertices = 3, directed = True, edges = [(1, 2), (2, 0), (0, 2)]\<rparr>) = Inr True"
    and u: "undirected (\<lambda>xs. xs) \<lparr>nvertices = 3, directed = True, edges = [(1, 2), (2, 0), (0, 2)]\<rparr>
              = Inr u"
    and ual: "toGraphAL (\<lambda>xs. xs) u = Inr ual"
    and u': "toGraphEL (\<lambda>xs. xs) ual = Inr u'"
    and eq3: "GraphEL_eq (\<lambda>xs. xs) u' (EL u) = Inr True"
    unfolding e by auto
  have al_v: "toGraphAL (\<lambda>xs. xs) \<lparr>nvertices = 3, directed = True, edges = [(1, 2), (2, 0), (0, 2)]\<rparr>
       = Inr \<lparr>nverticesAL = 3, directedAL = True, neighbors = [[2], [2], [0]]\<rparr>"
    by code_simp
  have gr'_v: "toGraphEL (\<lambda>xs. xs) \<lparr>nverticesAL = 3, directedAL = True, neighbors = [[2], [2], [0]]\<rparr>
       = Inr \<lparr>nvertices = 3, directed = True, edges = [(0, 2), (1, 2), (2, 0)]\<rparr>"
    by code_simp
  have u_v: "undirected (\<lambda>xs. xs) \<lparr>nvertices = 3, directed = True, edges = [(1, 2), (2, 0), (0, 2)]\<rparr>
       = Inr \<lparr>nvertices = 3, directed = False, edges = [(1, 2), (2, 1), (2, 0), (0, 2)]\<rparr>"
    by code_simp
  have ual_v: "toGraphAL (\<lambda>xs. xs)
         \<lparr>nvertices = 3, directed = False, edges = [(1, 2), (2, 1), (2, 0), (0, 2)]\<rparr>
       = Inr \<lparr>nverticesAL = 3, directedAL = False, neighbors = [[2], [2], [1, 0]]\<rparr>"
    by code_simp
  have u'_v: "toGraphEL (\<lambda>xs. xs) \<lparr>nverticesAL = 3, directedAL = False, neighbors = [[2], [2], [1, 0]]\<rparr>
       = Inr \<lparr>nvertices = 3, directed = False, edges = [(0, 2), (2, 0), (1, 2), (2, 1)]\<rparr>"
    by code_simp
  from al al_v have "al = \<lparr>nverticesAL = 3, directedAL = True, neighbors = [[2], [2], [0]]\<rparr>"
    by simp
  with gr' gr'_v have g1: "gr' = \<lparr>nvertices = 3, directed = True, edges = [(0, 2), (1, 2), (2, 0)]\<rparr>"
    by simp
  from u u_v have u1: "u = \<lparr>nvertices = 3, directed = False, edges = [(1, 2), (2, 1), (2, 0), (0, 2)]\<rparr>"
    by simp
  with ual ual_v have "ual = \<lparr>nverticesAL = 3, directedAL = False, neighbors = [[2], [2], [1, 0]]\<rparr>"
    by simp
  with u' u'_v have u2: "u' = \<lparr>nvertices = 3, directed = False, edges = [(0, 2), (2, 0), (1, 2), (2, 1)]\<rparr>"
    by simp
  from e al_v gr'_v u_v ual_v u'_v eq1 [unfolded g1] eq3 [unfolded u1 u2]
  show ?thesis by simp
qed

end
